theory Spec2Isabelle
  imports Complex_Main
begin

section \<open>The retry policy of \<^verbatim>\<open>data_loader.py\<close>\<close>

text \<open>
  \<^verbatim>\<open>KeyspacesRetryPolicy\<close> overrides the four callbacks of the driver's
  \<^verbatim>\<open>RetryPolicy\<close>. Each returns a pair: the decision and the consistency level of the
  retry (\<^verbatim>\<open>None\<close> when the error is rethrown). Python's integers are unbounded, so
  \<open>retry_num\<close> and \<open>RETRY_MAX_ATTEMPTS\<close> are of type \<open>int\<close>. The arguments that the
  bodies never read keep their place and are polymorphic.
\<close>

datatype retry_decision = RETRY | RETHROW

record KeyspacesRetryPolicy =
  RETRY_MAX_ATTEMPTS :: int

definition KeyspacesRetryPolicy_init :: "int \<Rightarrow> KeyspacesRetryPolicy" where
  "KeyspacesRetryPolicy_init n = \<lparr>RETRY_MAX_ATTEMPTS = n\<rparr>"

definition on_read_timeout ::
  "KeyspacesRetryPolicy \<Rightarrow> 'q \<Rightarrow> 'c \<Rightarrow> 'r1 \<Rightarrow> 'r2 \<Rightarrow> 'd \<Rightarrow> int \<Rightarrow> retry_decision \<times> 'c option" where
  "on_read_timeout self query consistency required_responses received_responses
       data_retrieved retry_num =
     (if retry_num \<le> RETRY_MAX_ATTEMPTS self then (RETRY, Some consistency)
      else (RETHROW, None))"

definition on_write_timeout ::
  "KeyspacesRetryPolicy \<Rightarrow> 'q \<Rightarrow> 'c \<Rightarrow> 'w \<Rightarrow> 'r1 \<Rightarrow> 'r2 \<Rightarrow> int \<Rightarrow> retry_decision \<times> 'c option" where
  "on_write_timeout self query consistency write_type required_responses
       received_responses retry_num =
     (if retry_num \<le> RETRY_MAX_ATTEMPTS self then (RETRY, Some consistency)
      else (RETHROW, None))"

definition on_unavailable ::
  "KeyspacesRetryPolicy \<Rightarrow> 'q \<Rightarrow> 'c \<Rightarrow> 'r1 \<Rightarrow> 'r2 \<Rightarrow> int \<Rightarrow> retry_decision \<times> 'c option" where
  "on_unavailable self query consistency required_replicas alive_replicas retry_num =
     (if retry_num \<le> RETRY_MAX_ATTEMPTS self then (RETRY, Some consistency)
      else (RETHROW, None))"

definition on_request_error ::
  "KeyspacesRetryPolicy \<Rightarrow> 'q \<Rightarrow> 'c \<Rightarrow> 'e \<Rightarrow> int \<Rightarrow> retry_decision \<times> 'c option" where
  "on_request_error self query consistency error retry_num =
     (if retry_num \<le> RETRY_MAX_ATTEMPTS self then (RETRY, Some consistency)
      else (RETHROW, None))"

section \<open>One \<^verbatim>\<open>session.execute\<close> call\<close>

text \<open>
  The sink answers every write attempt with one outcome. A transient failure carries its
  cause, which selects the callback the driver consults.
\<close>

datatype transient_cause = ReadTimeout | WriteTimeout | Unavailable | RequestError

datatype WriteOutcome = Succeeded | FailedTransient transient_cause | FailedPermanent

datatype ConsistencyLevel = LOCAL_QUORUM

datatype py_error = ZeroDivisionError | DriverError WriteOutcome

datatype attempt = Attempt (retry_num: int) (started: rat) (outcome: WriteOutcome)

definition consult ::
  "KeyspacesRetryPolicy \<Rightarrow> ConsistencyLevel \<Rightarrow> transient_cause \<Rightarrow> int
     \<Rightarrow> retry_decision \<times> ConsistencyLevel option" where
  "consult pol c cause n =
     (case cause of
        ReadTimeout \<Rightarrow> on_read_timeout pol () c () () () n
      | WriteTimeout \<Rightarrow> on_write_timeout pol () c () () () n
      | Unavailable \<Rightarrow> on_unavailable pol () c () () n
      | RequestError \<Rightarrow> on_request_error pol () c () n)"

lemma consult_RETRY: "fst (consult pol c cause n) = RETRY \<longleftrightarrow> n \<le> RETRY_MAX_ATTEMPTS pol"
  by (cases cause)
     (simp_all add: consult_def on_read_timeout_def on_write_timeout_def
        on_unavailable_def on_request_error_def)

text \<open>
  The script calls \<^verbatim>\<open>session.execute(prepared, ...)\<close> under the execution profile
  whose retry policy is \<^verbatim>\<open>KeyspacesRetryPolicy(RETRY_MAX_ATTEMPTS=20)\<close> and whose
  consistency level is \<^verbatim>\<open>LOCAL_QUORUM\<close>. The call is served by the Cassandra driver,
  a library outside the repository. Its contract, as the driver documents it for
  \<^verbatim>\<open>RetryPolicy\<close>: the request is sent; on a retryable error the matching callback is
  consulted with \<open>retry_num\<close>, the number of retries already made for this request (so 0
  at the first failure); on \<^verbatim>\<open>RETRY\<close> the counter is incremented and the request is sent
  again at once; on \<^verbatim>\<open>RETHROW\<close> the error is raised to the caller. Any other error is
  raised without consulting the policy.

  \<open>sink k\<close> is the outcome of the attempt made with \<open>retry_num = k\<close>, \<open>lat k\<close> the time
  that attempt takes, \<open>clock\<close> the time (seconds) when it starts. The result is the raised
  error or unit, the attempts made in order, and the time when the call returns.
\<close>

function session_execute ::
  "KeyspacesRetryPolicy \<Rightarrow> (int \<Rightarrow> WriteOutcome) \<Rightarrow> (int \<Rightarrow> rat) \<Rightarrow> rat \<Rightarrow> int
     \<Rightarrow> (py_error + unit) \<times> attempt list \<times> rat" where
  "session_execute pol sink lat clock n =
     (case sink n of
        Succeeded \<Rightarrow> (Inr (), [Attempt n clock Succeeded], clock + lat n)
      | FailedPermanent \<Rightarrow>
          (Inl (DriverError FailedPermanent), [Attempt n clock FailedPermanent], clock + lat n)
      | FailedTransient cause \<Rightarrow>
          (if fst (consult pol LOCAL_QUORUM cause n) = RETRY
           then (case session_execute pol sink lat (clock + lat n) (n + 1) of
                   (res, atts, t) \<Rightarrow> (res, Attempt n clock (FailedTransient cause) # atts, t))
           else (Inl (DriverError (FailedTransient cause)),
                 [Attempt n clock (FailedTransient cause)], clock + lat n)))"
  by pat_completeness auto
termination
  by (relation "measure (\<lambda>(pol, sink, lat, clock, n). nat (RETRY_MAX_ATTEMPTS pol + 1 - n))")
     (auto simp: consult_RETRY)

declare session_execute.simps [simp del]

section \<open>Progress reporting\<close>

text \<open>
  Python's \<^verbatim>\<open>/\<close> raises \<^verbatim>\<open>ZeroDivisionError\<close> on a zero divisor, where HOL's division
  returns 0. Times and rates are floats in the script; the model computes with exact
  rationals.
\<close>

definition py_truediv :: "rat \<Rightarrow> rat \<Rightarrow> py_error + rat" where
  "py_truediv a b = (if b = 0 then Inl ZeroDivisionError else Inr (a / b))"

definition py_bind :: "py_error + 'a \<Rightarrow> ('a \<Rightarrow> py_error + 'b) \<Rightarrow> py_error + 'b" where
  "py_bind m f = (case m of Inl e \<Rightarrow> Inl e | Inr x \<Rightarrow> f x)"

text \<open>\<^verbatim>\<open>rate = i / elapsed_time if elapsed_time > 0 else 0\<close>\<close>

definition observed_rate :: "nat \<Rightarrow> rat \<Rightarrow> py_error + rat" where
  "observed_rate i elapsed_time =
     (if elapsed_time > 0 then py_truediv (of_nat i) elapsed_time else Inr 0)"

text \<open>\<^verbatim>\<open>eta_seconds = (len(rows) - i) / rate if rate > 0 else 0\<close>\<close>

definition eta_seconds :: "nat \<Rightarrow> nat \<Rightarrow> rat \<Rightarrow> py_error + rat" where
  "eta_seconds len_rows i rate =
     (if rate > 0 then py_truediv (of_nat len_rows - of_nat i) rate else Inr 0)"

text \<open>
  The values the progress line prints, before they are formatted:
  \<^verbatim>\<open>{i}/{len(rows)} records ({i/len(rows)*100}%) - Rate: {rate} - ETA: {eta_minutes}\<close>.
\<close>

record progress =
  processed :: nat
  total :: nat
  percent :: rat
  rate :: rat
  eta_minutes :: rat

definition progress_report :: "nat \<Rightarrow> nat \<Rightarrow> rat \<Rightarrow> py_error + progress" where
  "progress_report i len_rows elapsed_time =
     py_bind (observed_rate i elapsed_time) (\<lambda>r.
     py_bind (eta_seconds len_rows i r) (\<lambda>es.
     py_bind (py_truediv es 60) (\<lambda>em.
     py_bind (py_truediv (of_nat i) (of_nat len_rows)) (\<lambda>frac.
       Inr \<lparr>processed = i, total = len_rows, percent = frac * 100,
            rate = r, eta_minutes = em\<rparr>))))"

section \<open>The insert loop\<close>

text \<open>
  The loop's variables: the two counters and the clock. What one iteration does is
  returned as a list of events in the order they happen: the write attempts of
  \<^verbatim>\<open>session.execute\<close>, the update of a counter (\<open>Counted i True\<close> for
  \<^verbatim>\<open>successful += 1\<close>, \<open>Counted i False\<close> for \<^verbatim>\<open>failed += 1\<close>), the progress line,
  the error line and \<^verbatim>\<open>time.sleep(1)\<close>. Every event carries the index \<open>i\<close> of its
  iteration.
\<close>

record loop_state =
  successful :: nat
  failed :: nat
  now :: rat

datatype 'row event =
    AttemptEv nat 'row attempt
  | Counted nat bool
  | ProgressEv nat progress
  | ErrorEv nat py_error
  | SleepEv nat rat

text \<open>\<^verbatim>\<open>if i < len(rows): time.sleep(1)\<close>, on both paths.\<close>

definition pace :: "nat \<Rightarrow> nat \<Rightarrow> loop_state \<Rightarrow> loop_state \<times> 'row event list" where
  "pace len_rows i st =
     (if i < len_rows then (st\<lparr>now := now st + 1\<rparr>, [SleepEv i 1]) else (st, []))"

text \<open>The \<^verbatim>\<open>except Exception as e\<close> handler.\<close>

definition except_handler ::
  "nat \<Rightarrow> nat \<Rightarrow> py_error \<Rightarrow> loop_state \<Rightarrow> loop_state \<times> 'row event list" where
  "except_handler len_rows i e st =
     (case pace len_rows i (st\<lparr>failed := failed st + 1\<rparr>) of
        (st', evs) \<Rightarrow> (st', [Counted i False, ErrorEv i e] @ evs))"

text \<open>
  The body of the \<^verbatim>\<open>for\<close> loop. An error raised anywhere in the \<^verbatim>\<open>try\<close> block, by
  \<^verbatim>\<open>session.execute\<close> or by the progress computation, reaches the handler.
\<close>

definition loop_body ::
  "KeyspacesRetryPolicy \<Rightarrow> (nat \<Rightarrow> 'row \<Rightarrow> int \<Rightarrow> WriteOutcome) \<Rightarrow> (nat \<Rightarrow> int \<Rightarrow> rat)
     \<Rightarrow> nat \<Rightarrow> rat \<Rightarrow> nat \<Rightarrow> 'row \<Rightarrow> loop_state \<Rightarrow> loop_state \<times> 'row event list" where
  "loop_body pol sink lat len_rows start_time i row st =
     (case session_execute pol (sink i row) (lat i) (now st) 0 of
        (res, atts, t) \<Rightarrow>
          (case res of
             Inl e \<Rightarrow>
               (case except_handler len_rows i e (st\<lparr>now := t\<rparr>) of
                  (st', evs) \<Rightarrow> (st', map (AttemptEv i row) atts @ evs))
           | Inr _ \<Rightarrow>
               (let st1 = st\<lparr>successful := successful st + 1, now := t\<rparr>;
                    evs1 = map (AttemptEv i row) atts @ [Counted i True]
                in if i mod 10 = 0
                   then (case progress_report i len_rows (t - start_time) of
                           Inl e \<Rightarrow>
                             (case except_handler len_rows i e st1 of
                                (st', evs) \<Rightarrow> (st', evs1 @ evs))
                         | Inr p \<Rightarrow>
                             (case pace len_rows i st1 of
                                (st', evs) \<Rightarrow> (st', evs1 @ [ProgressEv i p] @ evs)))
                   else (case pace len_rows i st1 of
                           (st', evs) \<Rightarrow> (st', evs1 @ evs)))))"

text \<open>\<^verbatim>\<open>for i, row in enumerate(rows, 1)\<close>: \<open>i\<close> is the index of the first remaining row.\<close>

fun insert_loop ::
  "KeyspacesRetryPolicy \<Rightarrow> (nat \<Rightarrow> 'row \<Rightarrow> int \<Rightarrow> WriteOutcome) \<Rightarrow> (nat \<Rightarrow> int \<Rightarrow> rat)
     \<Rightarrow> nat \<Rightarrow> rat \<Rightarrow> nat \<Rightarrow> 'row list \<Rightarrow> loop_state \<Rightarrow> loop_state \<times> 'row event list" where
  "insert_loop pol sink lat len_rows start_time i [] st = (st, [])"
| "insert_loop pol sink lat len_rows start_time i (row # rest) st =
     (case loop_body pol sink lat len_rows start_time i row st of
        (st1, evs1) \<Rightarrow>
          (case insert_loop pol sink lat len_rows start_time (i + 1) rest st1 of
             (st2, evs2) \<Rightarrow> (st2, evs1 @ evs2)))"

text \<open>
  The run, from \<^verbatim>\<open>successful = 0\<close> to the end of the loop. \<open>t0\<close> is the clock read into
  \<^verbatim>\<open>start_time\<close>; the policy is the one the execution profile is built with.
\<close>

definition profile_policy :: KeyspacesRetryPolicy where
  "profile_policy = KeyspacesRetryPolicy_init 20"

definition run ::
  "(nat \<Rightarrow> 'row \<Rightarrow> int \<Rightarrow> WriteOutcome) \<Rightarrow> (nat \<Rightarrow> int \<Rightarrow> rat) \<Rightarrow> rat \<Rightarrow> 'row list
     \<Rightarrow> loop_state \<times> 'row event list" where
  "run sink lat t0 rows =
     insert_loop profile_policy sink lat (length rows) t0 1 rows
       \<lparr>successful = 0, failed = 0, now = t0\<rparr>"

section \<open>Reading a run's events\<close>

primrec ev_index :: "'row event \<Rightarrow> nat" where
  "ev_index (AttemptEv i row a) = i"
| "ev_index (Counted i ok) = i"
| "ev_index (ProgressEv i p) = i"
| "ev_index (ErrorEv i e) = i"
| "ev_index (SleepEv i d) = i"

primrec is_attempt :: "'row event \<Rightarrow> bool" where
  "is_attempt (AttemptEv i row a) = True"
| "is_attempt (Counted i ok) = False"
| "is_attempt (ProgressEv i p) = False"
| "is_attempt (ErrorEv i e) = False"
| "is_attempt (SleepEv i d) = False"

text \<open>The first attempt of a \<^verbatim>\<open>session.execute\<close> call is the one with \<open>retry_num = 0\<close>.\<close>

primrec is_first_attempt :: "'row event \<Rightarrow> bool" where
  "is_first_attempt (AttemptEv i row a) = (retry_num a = 0)"
| "is_first_attempt (Counted i ok) = False"
| "is_first_attempt (ProgressEv i p) = False"
| "is_first_attempt (ErrorEv i e) = False"
| "is_first_attempt (SleepEv i d) = False"

primrec is_counted :: "'row event \<Rightarrow> bool" where
  "is_counted (AttemptEv i row a) = False"
| "is_counted (Counted i ok) = True"
| "is_counted (ProgressEv i p) = False"
| "is_counted (ErrorEv i e) = False"
| "is_counted (SleepEv i d) = False"

primrec is_progress :: "'row event \<Rightarrow> bool" where
  "is_progress (AttemptEv i row a) = False"
| "is_progress (Counted i ok) = False"
| "is_progress (ProgressEv i p) = True"
| "is_progress (ErrorEv i e) = False"
| "is_progress (SleepEv i d) = False"


text \<open>The record a write attempt is made on, and when the attempt starts.\<close>

primrec attempt_target :: "'row event \<Rightarrow> (nat \<times> 'row) option" where
  "attempt_target (AttemptEv i row a) = Some (i, row)"
| "attempt_target (Counted i ok) = None"
| "attempt_target (ProgressEv i p) = None"
| "attempt_target (ErrorEv i e) = None"
| "attempt_target (SleepEv i d) = None"

primrec attempt_stamp :: "'row event \<Rightarrow> (nat \<times> rat) option" where
  "attempt_stamp (AttemptEv i row a) = Some (i, started a)"
| "attempt_stamp (Counted i ok) = None"
| "attempt_stamp (ProgressEv i p) = None"
| "attempt_stamp (ErrorEv i e) = None"
| "attempt_stamp (SleepEv i d) = None"

primrec counted_as :: "bool \<Rightarrow> 'row event \<Rightarrow> bool" where
  "counted_as b (AttemptEv i row a) = False"
| "counted_as b (Counted i ok) = (ok = b)"
| "counted_as b (ProgressEv i p) = False"
| "counted_as b (ErrorEv i e) = False"
| "counted_as b (SleepEv i d) = False"

primrec counted_flag :: "'row event \<Rightarrow> bool option" where
  "counted_flag (AttemptEv i row a) = None"
| "counted_flag (Counted i ok) = Some ok"
| "counted_flag (ProgressEv i p) = None"
| "counted_flag (ErrorEv i e) = None"
| "counted_flag (SleepEv i d) = None"

text \<open>
  Start times \<open>d\<close> apart: \<open>spaced\<close> asks it of every two successive attempts,
  \<open>spaced_across\<close> only of two successive attempts made on different records.
\<close>

fun spaced :: "rat \<Rightarrow> rat list \<Rightarrow> bool" where
  "spaced d (s # t # rest) = (s + d \<le> t \<and> spaced d (t # rest))"
| "spaced d [s] = True"
| "spaced d [] = True"

fun spaced_across :: "rat \<Rightarrow> (nat \<times> rat) list \<Rightarrow> bool" where
  "spaced_across d ((i, s) # (j, t) # rest) =
     ((i = j \<or> s + d \<le> t) \<and> spaced_across d ((j, t) # rest))"
| "spaced_across d [p] = True"
| "spaced_across d [] = True"

section \<open>What the specification asks for, in its own words\<close>

text \<open>
  Following the spec: "Emits a progress event every \<open>progressIntervalRecords\<close> successful
  attempts". \<open>spec_progress_points k i s oks\<close> lists the indices of the records after
  which that asks for an event, where \<open>oks\<close> tells for each record from index \<open>i\<close> on
  whether it succeeded, and \<open>s\<close> successes came before.
\<close>

fun spec_progress_points :: "nat \<Rightarrow> nat \<Rightarrow> nat \<Rightarrow> bool list \<Rightarrow> nat list" where
  "spec_progress_points k i s [] = []"
| "spec_progress_points k i s (ok # oks) =
     (if ok
      then (if (s + 1) mod k = 0 then [i] else []) @ spec_progress_points k (i + 1) (s + 1) oks
      else spec_progress_points k (i + 1) s oks)"

text \<open>
  Following the spec: "cancellation returns the partial \<open>LoadReport\<close> built so far", after
  \<open>k\<close> records "report reflects exactly \<open>k\<close> completed records, [...] no attempt made on"
  the later ones. The script's loop reads no cancellation request, so a run during which
  one is made is the run without it.
\<close>

definition spec_cancelled_after :: "nat \<Rightarrow> loop_state \<times> 'row event list \<Rightarrow> bool" where
  "spec_cancelled_after k r =
     (successful (fst r) + failed (fst r) = k
      \<and> list_all (\<lambda>e. ev_index e \<le> k) (filter is_attempt (snd r)))"

section \<open>Sinks and latencies of the scenarios\<close>

definition always_write_timeout :: "nat \<Rightarrow> 'row \<Rightarrow> int \<Rightarrow> WriteOutcome" where
  "always_write_timeout i row k = FailedTransient WriteTimeout"

definition always_succeeds :: "nat \<Rightarrow> 'row \<Rightarrow> int \<Rightarrow> WriteOutcome" where
  "always_succeeds i row k = Succeeded"

definition no_latency :: "nat \<Rightarrow> int \<Rightarrow> rat" where
  "no_latency i k = 0"

definition first_record_rejected :: "nat \<Rightarrow> 'row \<Rightarrow> int \<Rightarrow> WriteOutcome" where
  "first_record_rejected i row k = (if i = 1 then FailedPermanent else Succeeded)"

definition timeout_once_then_ok :: "nat \<Rightarrow> 'row \<Rightarrow> int \<Rightarrow> WriteOutcome" where
  "timeout_once_then_ok i row k = (if k < 1 then FailedTransient WriteTimeout else Succeeded)"


definition tenth_of_a_second :: "nat \<Rightarrow> int \<Rightarrow> rat" where
  "tenth_of_a_second i k = 1 / 10"

section \<open>Facts about \<^verbatim>\<open>session.execute\<close>\<close>

lemma session_execute_hd:
  "\<exists>res rest t. session_execute pol sink lat clock n = (res, Attempt n clock (sink n) # rest, t)"
  by (subst session_execute.simps) (auto split: WriteOutcome.splits prod.splits)


lemma session_execute_retry_nums:
  "session_execute pol sink lat clock n = (res, atts, t) \<Longrightarrow>
   map retry_num atts = map (\<lambda>k. n + int k) [0..<length atts]"
proof (induction pol sink lat clock n arbitrary: res atts t rule: session_execute.induct)
  case (1 pol sink lat clock n)
  show ?case
  proof (cases "sink n")
    case Succeeded
    with "1.prems" show ?thesis by (auto simp: session_execute.simps [of pol sink lat clock n])
  next
    case FailedPermanent
    with "1.prems" show ?thesis by (auto simp: session_execute.simps [of pol sink lat clock n])
  next
    case (FailedTransient cause)
    show ?thesis
    proof (cases "fst (consult pol LOCAL_QUORUM cause n) = RETRY")
      case False
      with FailedTransient "1.prems" show ?thesis
        by (auto simp: session_execute.simps [of pol sink lat clock n])
    next
      case True
      obtain r as' t' where rec: "session_execute pol sink lat (clock + lat n) (n + 1) = (r, as', t')"
        by (cases "session_execute pol sink lat (clock + lat n) (n + 1)") auto
      from "1.IH" [OF FailedTransient True rec]
      have ih: "map retry_num as' = map (\<lambda>k. n + 1 + int k) [0..<length as']" .
      from FailedTransient True rec "1.prems"
      have atts: "atts = Attempt n clock (FailedTransient cause) # as'"
        by (auto simp: session_execute.simps [of pol sink lat clock n])
      have "map (\<lambda>k. n + int k) [0..<Suc (length as')] =
            n # map (\<lambda>k. n + 1 + int k) [0..<length as']"
        by (simp add: upt_conv_Cons map_Suc_upt [symmetric] del: upt_Suc)
      with atts ih show ?thesis by simp
    qed
  qed
qed

lemma always_transient_attempts:
  "\<forall>k. \<exists>c. sink k = FailedTransient c \<Longrightarrow> n \<le> RETRY_MAX_ATTEMPTS pol + 1 \<Longrightarrow>
     \<exists>c atts t. session_execute pol sink lat clock n = (Inl (DriverError (FailedTransient c)), atts, t)
        \<and> length atts = nat (RETRY_MAX_ATTEMPTS pol + 2 - n)"
proof (induction pol sink lat clock n rule: session_execute.induct)
  case (1 pol sink lat clock n)
  from "1.prems" obtain cause where c: "sink n = FailedTransient cause" by blast
  show ?case
  proof (cases "n \<le> RETRY_MAX_ATTEMPTS pol")
    case True
    then have r: "fst (consult pol LOCAL_QUORUM cause n) = RETRY" by (simp add: consult_RETRY)
    from True have "n + 1 \<le> RETRY_MAX_ATTEMPTS pol + 1" by simp
    from "1.IH" [OF c r "1.prems"(1) this] obtain c' as' t' where
      rec: "session_execute pol sink lat (clock + lat n) (n + 1) =
              (Inl (DriverError (FailedTransient c')), as', t')"
      and len: "length as' = nat (RETRY_MAX_ATTEMPTS pol + 2 - (n + 1))" by blast
    from True len have "Suc (length as') = nat (RETRY_MAX_ATTEMPTS pol + 2 - n)" by simp
    with c r rec show ?thesis
      by (simp add: session_execute.simps [of pol sink lat clock n])
  next
    case False
    then have r: "fst (consult pol LOCAL_QUORUM cause n) \<noteq> RETRY" by (simp add: consult_RETRY)
    from False "1.prems" have "nat (RETRY_MAX_ATTEMPTS pol + 2 - n) = 1" by simp
    with c r show ?thesis
      by (simp add: session_execute.simps [of pol sink lat clock n])
  qed
qed

lemma session_execute_stop:
  "\<not> (\<exists>cause. sink n = FailedTransient cause \<and> fst (consult pol LOCAL_QUORUM cause n) = RETRY) \<Longrightarrow>
   session_execute pol sink lat clock n =
     (if sink n = Succeeded then Inr () else Inl (DriverError (sink n)),
      [Attempt n clock (sink n)], clock + lat n)"
  by (subst session_execute.simps) (simp split: WriteOutcome.splits)

lemma session_execute_again:
  "sink n = FailedTransient cause \<Longrightarrow> fst (consult pol LOCAL_QUORUM cause n) = RETRY \<Longrightarrow>
   session_execute pol sink lat clock n =
     (fst (session_execute pol sink lat (clock + lat n) (n + 1)),
      Attempt n clock (sink n) # fst (snd (session_execute pol sink lat (clock + lat n) (n + 1))),
      snd (snd (session_execute pol sink lat (clock + lat n) (n + 1))))"
  by (subst session_execute.simps) (simp split: prod.splits)

lemma session_execute_retry_nums_ge:
  "session_execute pol sink lat clock n = (res, atts, t) \<Longrightarrow> a \<in> set atts \<Longrightarrow> n \<le> retry_num a"
proof -
  assume ex: "session_execute pol sink lat clock n = (res, atts, t)" and a: "a \<in> set atts"
  from a have "retry_num a \<in> set (map retry_num atts)" by simp
  also from ex have "map retry_num atts = map (\<lambda>k. n + int k) [0..<length atts]"
    by (rule session_execute_retry_nums)
  finally show ?thesis by auto
qed

lemma session_execute_first_only:
  "filter (\<lambda>a. retry_num a = n) (fst (snd (session_execute pol sink lat clock n))) =
     [Attempt n clock (sink n)]"
proof (cases "\<exists>cause. sink n = FailedTransient cause \<and> fst (consult pol LOCAL_QUORUM cause n) = RETRY")
  case False
  then show ?thesis by (simp add: session_execute_stop)
next
  case True
  then obtain cause where c: "sink n = FailedTransient cause"
    and r: "fst (consult pol LOCAL_QUORUM cause n) = RETRY" by blast
  obtain r' as' t' where rec: "session_execute pol sink lat (clock + lat n) (n + 1) = (r', as', t')"
    by (cases "session_execute pol sink lat (clock + lat n) (n + 1)") auto
  have "\<And>a. a \<in> set as' \<Longrightarrow> retry_num a \<noteq> n"
    using session_execute_retry_nums_ge [OF rec] by fastforce
  then have "filter (\<lambda>a. retry_num a = n) as' = []" by (simp add: filter_empty_conv)
  with rec show ?thesis by (simp add: session_execute_again [of sink n cause pol lat clock, OF c r])
qed

lemma session_execute_error:
  "fst (session_execute pol sink lat clock n) \<noteq> Inl ZeroDivisionError"
proof (induction pol sink lat clock n rule: session_execute.induct)
  case (1 pol sink lat clock n)
  show ?case
  proof (cases "\<exists>cause. sink n = FailedTransient cause \<and> fst (consult pol LOCAL_QUORUM cause n) = RETRY")
    case False
    then show ?thesis by (simp add: session_execute_stop)
  next
    case True
    then obtain cause where c: "sink n = FailedTransient cause"
      and r: "fst (consult pol LOCAL_QUORUM cause n) = RETRY" by blast
    from "1.IH" [OF c r] show ?thesis by (simp add: session_execute_again [of sink n cause pol lat clock, OF c r])
  qed
qed

lemma session_execute_times:
  "\<forall>k. 0 \<le> lat k \<Longrightarrow>
   clock \<le> snd (snd (session_execute pol sink lat clock n)) \<and>
   (\<forall>a\<in>set (fst (snd (session_execute pol sink lat clock n))).
      clock \<le> started a \<and> started a \<le> snd (snd (session_execute pol sink lat clock n)))"
proof (induction pol sink lat clock n rule: session_execute.induct)
  case (1 pol sink lat clock n)
  have l: "0 \<le> lat n" using "1.prems" by simp
  show ?case
  proof (cases "\<exists>cause. sink n = FailedTransient cause \<and> fst (consult pol LOCAL_QUORUM cause n) = RETRY")
    case False
    with l show ?thesis by (simp add: session_execute_stop)
  next
    case True
    then obtain cause where c: "sink n = FailedTransient cause"
      and r: "fst (consult pol LOCAL_QUORUM cause n) = RETRY" by blast
    from "1.IH" [OF c r "1.prems"] l show ?thesis
      by (simp add: session_execute_again [of sink n cause pol lat clock, OF c r]) fastforce
  qed
qed

lemma session_execute_success:
  "fst (session_execute pol sink lat clock n) = Inr u \<Longrightarrow>
   \<exists>a\<in>set (fst (snd (session_execute pol sink lat clock n))).
      outcome a = Succeeded \<and>
      snd (snd (session_execute pol sink lat clock n)) = started a + lat (retry_num a)"
proof (induction pol sink lat clock n rule: session_execute.induct)
  case (1 pol sink lat clock n)
  show ?case
  proof (cases "\<exists>cause. sink n = FailedTransient cause \<and> fst (consult pol LOCAL_QUORUM cause n) = RETRY")
    case False
    with "1.prems" show ?thesis by (simp add: session_execute_stop split: if_splits)
  next
    case True
    then obtain cause where c: "sink n = FailedTransient cause"
      and r: "fst (consult pol LOCAL_QUORUM cause n) = RETRY" by blast
    from "1.prems" have "fst (session_execute pol sink lat (clock + lat n) (n + 1)) = Inr u"
      by (simp add: session_execute_again [of sink n cause pol lat clock, OF c r])
    from "1.IH" [OF c r this] show ?thesis by (simp add: session_execute_again [of sink n cause pol lat clock, OF c r])
  qed
qed


section \<open>Facts about one iteration and about the loop\<close>

lemma progress_report_ok:
  "0 < n \<Longrightarrow> progress_report i n el =
     Inr \<lparr>processed = i, total = n, percent = of_nat i / of_nat n * 100,
          rate = (if el > 0 then of_nat i / el else 0),
          eta_minutes = (if (if el > 0 then of_nat i / el else 0) > 0
                         then (of_nat n - of_nat i) / (if el > 0 then of_nat i / el else 0)
                         else 0) / 60\<rparr>"
  by (simp add: progress_report_def observed_rate_def eta_seconds_def py_truediv_def py_bind_def)


lemma loop_body_failure:
  fixes row :: 'row
  shows "session_execute pol (sink i row) (lat i) (now st) 0 = (Inl e, atts, t) \<Longrightarrow>
   loop_body pol sink lat n t0 i row st =
     (st\<lparr>now := (if i < n then t + 1 else t), failed := failed st + 1\<rparr>,
      map (AttemptEv i row) atts @ [Counted i False, ErrorEv i e] @
      (if i < n then [SleepEv i 1] else []))"
  by (simp add: loop_body_def except_handler_def pace_def split: prod.splits)

lemma loop_body_success:
  fixes row :: 'row
  shows "session_execute pol (sink i row) (lat i) (now st) 0 = (Inr u, atts, t) \<Longrightarrow> 0 < n \<Longrightarrow>
   loop_body pol sink lat n t0 i row st =
     (st\<lparr>successful := successful st + 1, now := (if i < n then t + 1 else t)\<rparr>,
      map (AttemptEv i row) atts @ [Counted i True] @
      (if i mod 10 = 0 then [ProgressEv i (projr (progress_report i n (t - t0)))] else []) @
      (if i < n then [SleepEv i 1] else []))"
  by (simp add: loop_body_def progress_report_ok pace_def Let_def split: prod.splits)


text \<open>One iteration, told by the result of its \<^verbatim>\<open>session.execute\<close> call.\<close>

lemma loop_body_eq:
  fixes row :: 'row
  assumes "0 < n"
  shows "loop_body pol sink lat n t0 i row st =
     (let r = session_execute pol (sink i row) (lat i) (now st) 0;
          ok = (fst r = Inr ());
          t = snd (snd r)
      in (st\<lparr>successful := successful st + (if ok then 1 else 0),
             now := (if i < n then t + 1 else t),
             failed := failed st + (if ok then 0 else 1)\<rparr>,
          map (AttemptEv i row) (fst (snd r)) @ [Counted i ok] @
          (if ok then (if i mod 10 = 0 then [ProgressEv i (projr (progress_report i n (t - t0)))] else [])
           else [ErrorEv i (projl (fst r))]) @
          (if i < n then [SleepEv i 1] else [])))"
proof -
  obtain res atts t where ex: "session_execute pol (sink i row) (lat i) (now st) 0 = (res, atts, t)"
    by (cases "session_execute pol (sink i row) (lat i) (now st) 0") auto
  show ?thesis
  proof (cases res)
    case (Inl e)
    with ex show ?thesis by (simp add: loop_body_failure)
  next
    case (Inr u)
    with ex assms show ?thesis by (simp add: loop_body_success)
  qed
qed

lemma body_counters:
  "0 < n \<Longrightarrow>
   successful (fst (loop_body pol sink lat n t0 i row st)) +
   failed (fst (loop_body pol sink lat n t0 i row st)) = successful st + failed st + 1"
  by (simp add: loop_body_eq Let_def)

lemma body_successful:
  "0 < n \<Longrightarrow>
   successful (fst (loop_body pol sink lat n t0 i row st)) =
     successful st + length (filter (counted_as True) (snd (loop_body pol sink lat n t0 i row st)))"
  by (simp add: loop_body_eq Let_def filter_map comp_def)

lemma body_failed:
  "0 < n \<Longrightarrow>
   failed (fst (loop_body pol sink lat n t0 i row st)) =
     failed st + length (filter (counted_as False) (snd (loop_body pol sink lat n t0 i row st)))"
  by (simp add: loop_body_eq Let_def filter_map comp_def)

lemma body_counted:
  "0 < n \<Longrightarrow> map ev_index (filter is_counted (snd (loop_body pol sink lat n t0 i row st))) = [i]"
  by (simp add: loop_body_eq Let_def filter_map comp_def)

lemma body_first_attempt:
  "0 < n \<Longrightarrow>
   filter is_first_attempt (snd (loop_body pol sink lat n t0 i row st)) =
     [AttemptEv i row (Attempt 0 (now st) (sink i row 0))]"
  by (simp add: loop_body_eq Let_def filter_map comp_def session_execute_first_only)

lemma body_indices:
  "0 < n \<Longrightarrow> \<exists>k. map ev_index (snd (loop_body pol sink lat n t0 i row st)) = replicate (Suc k) i"
proof -
  assume n: "0 < n"
  let ?evs = "snd (loop_body pol sink lat n t0 i row st)"
  have "\<forall>e\<in>set ?evs. ev_index e = i" "?evs \<noteq> []"
    using n by (auto simp: loop_body_eq Let_def)
  then have "map ev_index ?evs = replicate (length ?evs) i" "0 < length ?evs"
    by (simp_all add: map_replicate_const [symmetric] cong: map_cong)
  then show ?thesis by (metis Suc_pred)
qed

lemma map_filter_append:
  "List.map_filter f (xs @ ys) = List.map_filter f xs @ List.map_filter f ys"
  by (simp add: List.map_filter_def)

lemma body_targets:
  "0 < n \<Longrightarrow>
   \<exists>k. List.map_filter attempt_target (snd (loop_body pol sink lat n t0 i row st)) =
        replicate (Suc k) (i, row)"
proof -
  assume n: "0 < n"
  let ?atts = "fst (snd (session_execute pol (sink i row) (lat i) (now st) 0))"
  have "List.map_filter attempt_target (snd (loop_body pol sink lat n t0 i row st)) =
        map (\<lambda>a. (i, row)) ?atts"
    using n by (simp add: loop_body_eq Let_def map_filter_append List.map_filter_def comp_def filter_map)
  moreover have "?atts \<noteq> []"
    using session_execute_hd [of pol "sink i row" "lat i" "now st" 0] by auto
  ultimately have "List.map_filter attempt_target (snd (loop_body pol sink lat n t0 i row st)) =
        replicate (length ?atts) (i, row)" "0 < length ?atts"
    by (simp_all add: map_replicate_const)
  then show ?thesis by (metis Suc_pred)
qed

lemma remdups_adj_block:
  "remdups_adj ys = zs \<Longrightarrow> zs = [] \<or> hd zs \<noteq> x \<Longrightarrow>
   remdups_adj (replicate (Suc k) x @ ys) = x # zs"
proof (induction k)
  case 0
  then show ?case by (cases ys) (auto split: if_splits)
next
  case (Suc k)
  then show ?case by simp
qed

lemma insert_loop_Cons_snd:
  "snd (insert_loop pol sink lat n t0 i (row # rest) st) =
     snd (loop_body pol sink lat n t0 i row st) @
     snd (insert_loop pol sink lat n t0 (i + 1) rest (fst (loop_body pol sink lat n t0 i row st)))"
  by (simp split: prod.splits)

lemma insert_loop_Cons_fst:
  "fst (insert_loop pol sink lat n t0 i (row # rest) st) =
     fst (insert_loop pol sink lat n t0 (i + 1) rest (fst (loop_body pol sink lat n t0 i row st)))"
  by (simp split: prod.splits)

declare insert_loop.simps(2) [simp del]


lemma loop_step:
  "0 < i \<Longrightarrow> i + length (row # rest) = n + 1 \<Longrightarrow>
   0 < n \<and> 0 < i + 1 \<and> (i + 1) + length rest = n + 1"
  by simp

lemma upt_step:
  "0 < i \<Longrightarrow> i + length (row # rest) = n + 1 \<Longrightarrow> [i..<Suc n] = i # [i + 1..<Suc n]"
  by (simp add: upt_conv_Cons del: upt_Suc)

lemma insert_loop_counters:
  "0 < i \<Longrightarrow> i + length rest = n + 1 \<Longrightarrow>
   successful (fst (insert_loop pol sink lat n t0 i rest st)) +
   failed (fst (insert_loop pol sink lat n t0 i rest st)) =
     successful st + failed st + length rest"
proof (induction rest arbitrary: i st)
  case Nil
  then show ?case by simp
next
  case (Cons row rest)
  from loop_step [OF Cons.prems] have n: "0 < n" and nxt: "0 < i + 1" "(i + 1) + length rest = n + 1"
    by simp_all
  from Cons.IH [OF nxt] body_counters [OF n, of pol sink lat t0 i row st] show ?case
    by (simp add: insert_loop_Cons_fst)
qed

lemma insert_loop_successful:
  "0 < i \<Longrightarrow> i + length rest = n + 1 \<Longrightarrow>
   successful (fst (insert_loop pol sink lat n t0 i rest st)) =
     successful st + length (filter (counted_as True) (snd (insert_loop pol sink lat n t0 i rest st)))"
proof (induction rest arbitrary: i st)
  case Nil
  then show ?case by simp
next
  case (Cons row rest)
  from loop_step [OF Cons.prems] have n: "0 < n" and nxt: "0 < i + 1" "(i + 1) + length rest = n + 1"
    by simp_all
  from Cons.IH [OF nxt] body_successful [OF n, of pol sink lat t0 i row st] show ?case
    by (simp add: insert_loop_Cons_fst insert_loop_Cons_snd)
qed

lemma insert_loop_failed:
  "0 < i \<Longrightarrow> i + length rest = n + 1 \<Longrightarrow>
   failed (fst (insert_loop pol sink lat n t0 i rest st)) =
     failed st + length (filter (counted_as False) (snd (insert_loop pol sink lat n t0 i rest st)))"
proof (induction rest arbitrary: i st)
  case Nil
  then show ?case by simp
next
  case (Cons row rest)
  from loop_step [OF Cons.prems] have n: "0 < n" and nxt: "0 < i + 1" "(i + 1) + length rest = n + 1"
    by simp_all
  from Cons.IH [OF nxt] body_failed [OF n, of pol sink lat t0 i row st] show ?case
    by (simp add: insert_loop_Cons_fst insert_loop_Cons_snd)
qed

lemma insert_loop_counted:
  "0 < i \<Longrightarrow> i + length rest = n + 1 \<Longrightarrow>
   map ev_index (filter is_counted (snd (insert_loop pol sink lat n t0 i rest st))) = [i..<Suc n]"
proof (induction rest arbitrary: i st)
  case Nil
  then show ?case by simp
next
  case (Cons row rest)
  from loop_step [OF Cons.prems] have n: "0 < n" and nxt: "0 < i + 1" "(i + 1) + length rest = n + 1"
    by simp_all
  note upt = upt_step [OF Cons.prems]
  from Cons.IH [OF nxt] body_counted [OF n, of pol sink lat t0 i row st] upt show ?case
    by (simp add: insert_loop_Cons_snd del: upt_Suc)
qed


lemma insert_loop_indices:
  "0 < i \<Longrightarrow> i + length rest = n + 1 \<Longrightarrow>
   remdups_adj (map ev_index (snd (insert_loop pol sink lat n t0 i rest st))) = [i..<Suc n]"
proof (induction rest arbitrary: i st)
  case Nil
  then show ?case by simp
next
  case (Cons row rest)
  from loop_step [OF Cons.prems] have n: "0 < n" and nxt: "0 < i + 1" "(i + 1) + length rest = n + 1"
    by simp_all
  note upt = upt_step [OF Cons.prems]
  obtain k where k: "map ev_index (snd (loop_body pol sink lat n t0 i row st)) = replicate (Suc k) i"
    using body_indices [of n pol sink lat t0 i row st, OF n] by blast
  have "[i + 1..<Suc n] = [] \<or> hd [i + 1..<Suc n] \<noteq> i" by (cases "i + 1 < Suc n") (simp_all add: upt_conv_Cons del: upt_Suc)
  from remdups_adj_block [OF Cons.IH [OF nxt] this, of k] k upt show ?case
    by (simp add: insert_loop_Cons_snd del: replicate.simps upt_Suc)
qed

lemma insert_loop_targets:
  "0 < i \<Longrightarrow> i + length rest = n + 1 \<Longrightarrow>
   remdups_adj (List.map_filter attempt_target (snd (insert_loop pol sink lat n t0 i rest st))) =
   List.enumerate i rest"
proof (induction rest arbitrary: i st)
  case Nil
  then show ?case by (simp add: List.map_filter_def)
next
  case (Cons row rest)
  from loop_step [OF Cons.prems] have n: "0 < n" and nxt: "0 < i + 1" "(i + 1) + length rest = n + 1"
    by simp_all
  obtain k where k: "List.map_filter attempt_target (snd (loop_body pol sink lat n t0 i row st)) =
      replicate (Suc k) (i, row)"
    using body_targets [of n pol sink lat t0 i row st, OF n] by blast
  have "List.enumerate (i + 1) rest = [] \<or> hd (List.enumerate (i + 1) rest) \<noteq> (i, row)"
    by (cases rest) simp_all
  from remdups_adj_block [OF Cons.IH [OF nxt] this, of k] k show ?case
    by (simp add: insert_loop_Cons_snd map_filter_append del: replicate.simps)
qed

lemma insert_loop_first_indices:
  "0 < i \<Longrightarrow> i + length rest = n + 1 \<Longrightarrow>
   map ev_index (filter is_first_attempt (snd (insert_loop pol sink lat n t0 i rest st))) =
     [i..<Suc n]"
proof (induction rest arbitrary: i st)
  case Nil
  then show ?case by simp
next
  case (Cons row rest)
  from loop_step [OF Cons.prems] have n: "0 < n" and nxt: "0 < i + 1" "(i + 1) + length rest = n + 1"
    by simp_all
  note upt = upt_step [OF Cons.prems]
  from Cons.IH [OF nxt] body_first_attempt [OF n, of pol sink lat t0 i row st] upt show ?case
    by (simp add: insert_loop_Cons_snd del: upt_Suc)
qed

lemma body_no_division_error:
  "0 < n \<Longrightarrow> ErrorEv j ZeroDivisionError \<notin> set (snd (loop_body pol sink lat n t0 i row st))"
proof -
  assume n: "0 < n"
  let ?r = "session_execute pol (sink i row) (lat i) (now st) 0"
  have "projl (fst ?r) \<noteq> ZeroDivisionError" if "fst ?r \<noteq> Inr ()"
    using that session_execute_error [of pol "sink i row" "lat i" "now st" 0]
    by (cases "fst ?r") auto
  with n show ?thesis by (auto simp: loop_body_eq Let_def)
qed

lemma insert_loop_no_division_error:
  "0 < i \<Longrightarrow> i + length rest = n + 1 \<Longrightarrow>
   ErrorEv j ZeroDivisionError \<notin> set (snd (insert_loop pol sink lat n t0 i rest st))"
proof (induction rest arbitrary: i st)
  case Nil
  then show ?case by simp
next
  case (Cons row rest)
  from loop_step [OF Cons.prems] have n: "0 < n" and nxt: "0 < i + 1" "(i + 1) + length rest = n + 1"
    by simp_all
  from Cons.IH [OF nxt] body_no_division_error [OF n, of j pol sink lat t0 i row st] show ?case
    by (simp add: insert_loop_Cons_snd)
qed

lemma progress_report_error_iff:
  "(progress_report i n elapsed = Inl ZeroDivisionError) = (n = 0)"
  by (simp add: progress_report_def observed_rate_def eta_seconds_def py_truediv_def py_bind_def)

lemma body_progress_indices:
  "0 < n \<Longrightarrow>
   map ev_index (filter is_progress (snd (loop_body pol sink lat n t0 i row st))) =
     filter (\<lambda>j. j mod 10 = 0)
       (map ev_index (filter (counted_as True) (snd (loop_body pol sink lat n t0 i row st))))"
  by (simp add: loop_body_eq Let_def filter_map comp_def)

lemma insert_loop_progress_indices:
  "0 < i \<Longrightarrow> i + length rest = n + 1 \<Longrightarrow>
   map ev_index (filter is_progress (snd (insert_loop pol sink lat n t0 i rest st))) =
     filter (\<lambda>j. j mod 10 = 0)
       (map ev_index (filter (counted_as True) (snd (insert_loop pol sink lat n t0 i rest st))))"
proof (induction rest arbitrary: i st)
  case Nil
  then show ?case by simp
next
  case (Cons row rest)
  from loop_step [OF Cons.prems] have n: "0 < n" and nxt: "0 < i + 1" "(i + 1) + length rest = n + 1"
    by simp_all
  from Cons.IH [OF nxt] body_progress_indices [OF n, of pol sink lat t0 i row st] show ?case
    by (simp add: insert_loop_Cons_snd)
qed

lemma body_progress_values:
  fixes row :: 'row
  assumes n: "0 < n"
    and p: "ProgressEv j p \<in> set (snd (loop_body pol sink lat n t0 i row st))"
  shows "j mod 10 = 0 \<and> processed p = j \<and> total p = n
     \<and> percent p = of_nat j / of_nat n * 100
     \<and> (\<exists>a. AttemptEv j row a \<in> set (snd (loop_body pol sink lat n t0 i row st))
            \<and> outcome a = Succeeded
            \<and> rate p = (if started a + lat j (retry_num a) - t0 > 0
                        then of_nat j / (started a + lat j (retry_num a) - t0) else 0))
     \<and> eta_minutes p = (if rate p > 0 then (of_nat n - of_nat j) / rate p else 0) / 60"
proof -
  let ?r = "session_execute pol (sink i row) (lat i) (now st) 0"
  let ?t = "snd (snd ?r)"
  from p n have ok: "fst ?r = Inr ()" and m: "i mod 10 = 0" and j: "j = i"
    and pv: "p = projr (progress_report i n (?t - t0))"
    by (auto simp: loop_body_eq Let_def split: if_splits)
  from session_execute_success [OF ok] obtain a where
    a: "a \<in> set (fst (snd ?r))" "outcome a = Succeeded" "?t = started a + lat i (retry_num a)"
    by blast
  from a(1) n have "AttemptEv i row a \<in> set (snd (loop_body pol sink lat n t0 i row st))"
    by (simp add: loop_body_eq Let_def)
  moreover from pv n a(3) have
    "rate p = (if started a + lat i (retry_num a) - t0 > 0
               then of_nat i / (started a + lat i (retry_num a) - t0) else 0)"
    by (simp add: progress_report_ok)
  moreover from pv n have "processed p = i" "total p = n" "percent p = of_nat i / of_nat n * 100"
    "eta_minutes p = (if rate p > 0 then (of_nat n - of_nat i) / rate p else 0) / 60"
    by (simp_all add: progress_report_ok)
  ultimately show ?thesis using m a(2) unfolding j by blast
qed

lemma insert_loop_progress_values:
  fixes rest :: "'row list"
  shows "0 < i \<Longrightarrow> i + length rest = n + 1 \<Longrightarrow>
   ProgressEv j p \<in> set (snd (insert_loop pol sink lat n t0 i rest st)) \<Longrightarrow>
   j mod 10 = 0 \<and> processed p = j \<and> total p = n
     \<and> percent p = of_nat j / of_nat n * 100
     \<and> (\<exists>row a. AttemptEv j row a \<in> set (snd (insert_loop pol sink lat n t0 i rest st))
            \<and> outcome a = Succeeded
            \<and> rate p = (if started a + lat j (retry_num a) - t0 > 0
                        then of_nat j / (started a + lat j (retry_num a) - t0) else 0))
     \<and> eta_minutes p = (if rate p > 0 then (of_nat n - of_nat j) / rate p else 0) / 60"
proof (induction rest arbitrary: i st)
  case Nil
  then show ?case by simp
next
  case (Cons row rest)
  from loop_step [OF Cons.prems(1,2)] have n: "0 < n"
    and nxt: "0 < i + 1" "(i + 1) + length rest = n + 1"
    by simp_all
  let ?b = "loop_body pol sink lat n t0 i row st"
  let ?l = "insert_loop pol sink lat n t0 (i + 1) rest (fst ?b)"
  from Cons.prems(3) have "ProgressEv j p \<in> set (snd ?b) \<or> ProgressEv j p \<in> set (snd ?l)"
    by (simp add: insert_loop_Cons_snd)
  then show ?case
  proof
    assume "ProgressEv j p \<in> set (snd ?b)"
    from body_progress_values [OF n this] show ?thesis
      unfolding insert_loop_Cons_snd set_append Un_iff by blast
  next
    assume "ProgressEv j p \<in> set (snd ?l)"
    from Cons.IH [OF nxt this] show ?thesis
      unfolding insert_loop_Cons_snd set_append Un_iff by blast
  qed
qed


lemma spaced_across_append:
  "\<forall>p\<in>set xs. fst p = i \<and> snd p + d \<le> b \<Longrightarrow> \<forall>p\<in>set ys. b \<le> snd p \<Longrightarrow>
   spaced_across d ys \<Longrightarrow> spaced_across d (xs @ ys)"
proof (induction xs)
  case Nil
  then show ?case by simp
next
  case (Cons x xs)
  obtain j s where x: "x = (j, s)" by (cases x)
  show ?case
  proof (cases xs)
    case Nil
    show ?thesis
    proof (cases ys)
      case Nil
      with \<open>xs = []\<close> show ?thesis by simp
    next
      case (Cons y ys')
      obtain k t where y: "y = (k, t)" by (cases y)
      from Cons.prems(1) x have "s + d \<le> b" by simp
      moreover from Cons.prems(2) Cons y have "b \<le> t" by simp
      ultimately have "s + d \<le> t" by simp
      with Cons.prems(3) \<open>xs = []\<close> Cons x y show ?thesis by simp
    qed
  next
    case (Cons x' xs')
    obtain j' s' where x': "x' = (j', s')" by (cases x')
    from Cons.prems(1) x x' Cons have "j = j'" by simp
    moreover from Cons.IH Cons.prems have "spaced_across d (xs @ ys)" by simp
    ultimately show ?thesis using x x' Cons by simp
  qed
qed

lemma body_stamps:
  "0 < n \<Longrightarrow>
   List.map_filter attempt_stamp (snd (loop_body pol sink lat n t0 i row st)) =
     map (\<lambda>a. (i, started a)) (fst (snd (session_execute pol (sink i row) (lat i) (now st) 0)))"
  by (simp add: loop_body_eq Let_def map_filter_append List.map_filter_def comp_def filter_map)

lemma body_now:
  "0 < n \<Longrightarrow>
   now (fst (loop_body pol sink lat n t0 i row st)) =
     (if i < n then snd (snd (session_execute pol (sink i row) (lat i) (now st) 0)) + 1
      else snd (snd (session_execute pol (sink i row) (lat i) (now st) 0)))"
  by (simp add: loop_body_eq Let_def)

lemma insert_loop_spaced:
  "0 < i \<Longrightarrow> i + length rest = n + 1 \<Longrightarrow> \<forall>i k. 0 \<le> lat i k \<Longrightarrow>
   (\<forall>p\<in>set (List.map_filter attempt_stamp (snd (insert_loop pol sink lat n t0 i rest st))).
      now st \<le> snd p)
   \<and> spaced_across 1 (List.map_filter attempt_stamp (snd (insert_loop pol sink lat n t0 i rest st)))"
proof (induction rest arbitrary: i st)
  case Nil
  then show ?case by (simp add: List.map_filter_def)
next
  case (Cons row rest)
  from loop_step [OF Cons.prems(1,2)] have n: "0 < n"
    and nxt: "0 < i + 1" "(i + 1) + length rest = n + 1"
    by simp_all
  let ?r = "session_execute pol (sink i row) (lat i) (now st) 0"
  let ?t = "snd (snd ?r)"
  let ?b = "loop_body pol sink lat n t0 i row st"
  let ?xs = "map (\<lambda>a. (i, started a)) (fst (snd ?r))"
  let ?ys = "List.map_filter attempt_stamp
               (snd (insert_loop pol sink lat n t0 (i + 1) rest (fst ?b)))"
  have evs: "List.map_filter attempt_stamp (snd (insert_loop pol sink lat n t0 i (row # rest) st)) =
      ?xs @ ?ys"
    by (simp add: insert_loop_Cons_snd map_filter_append body_stamps [OF n])
  from Cons.prems(3) have lat: "\<forall>k. 0 \<le> lat i k" by simp
  from session_execute_times [OF lat, of "now st" pol "sink i row" 0]
  have t: "now st \<le> ?t" and a: "\<forall>a\<in>set (fst (snd ?r)). now st \<le> started a \<and> started a \<le> ?t"
    by simp_all
  from Cons.IH [OF nxt Cons.prems(3), of "fst ?b"]
  have ih1: "\<forall>p\<in>set ?ys. now (fst ?b) \<le> snd p" and ih2: "spaced_across 1 ?ys"
    by simp_all
  have nb: "now (fst ?b) = (if i < n then ?t + 1 else ?t)"
    by (rule body_now [OF n])
  have x1: "\<forall>p\<in>set ?xs. fst p = i \<and> snd p + 1 \<le> ?t + 1"
    using a by auto
  have y1: "\<forall>p\<in>set ?ys. ?t + 1 \<le> snd p"
  proof (cases "i < n")
    case True
    with nb ih1 show ?thesis by simp
  next
    case False
    with Cons.prems(2) have "rest = []" by (cases rest) auto
    then show ?thesis by (simp add: List.map_filter_def)
  qed
  have "spaced_across 1 (?xs @ ?ys)"
    by (rule spaced_across_append [OF x1 y1 ih2])
  moreover have "\<forall>p\<in>set (?xs @ ?ys). now st \<le> snd p"
  proof -
    from nb t have "now st \<le> now (fst ?b)" by (simp split: if_splits)
    with ih1 have "\<forall>p\<in>set ?ys. now st \<le> snd p" by fastforce
    with a show ?thesis by auto
  qed
  ultimately show ?case unfolding evs by blast
qed

section \<open>The claims\<close>

text \<open>
  C1: a record whose every attempt fails transiently. The specification expects
  \<open>RETRY_MAX_ATTEMPTS = 20\<close> attempts in total. The callbacks answer \<^verbatim>\<open>RETRY\<close> for
  \<open>retry_num = 0, ..., 20\<close>, so the request is sent 22 times before the error is raised;
  the record is then counted in \<open>failed\<close>.
\<close>

theorem always_transient_record_attempted_22_times:
  "length (filter is_attempt (snd (run always_write_timeout lat t0 [row]))) = 22
   \<and> successful (fst (run always_write_timeout lat t0 [row])) = 0
   \<and> failed (fst (run always_write_timeout lat t0 [row])) = 1"
proof -
  have "\<forall>k. \<exists>c. always_write_timeout (1::nat) row k = FailedTransient c"
    by (simp add: always_write_timeout_def)
  moreover have "(0::int) \<le> RETRY_MAX_ATTEMPTS profile_policy + 1"
    by (simp add: profile_policy_def KeyspacesRetryPolicy_init_def)
  ultimately obtain c atts t where
    ex: "session_execute profile_policy (always_write_timeout 1 row) (lat 1) t0 0 =
           (Inl (DriverError (FailedTransient c)), atts, t)"
    and len: "length atts = nat (RETRY_MAX_ATTEMPTS profile_policy + 2 - 0)"
    using always_transient_attempts [of "always_write_timeout 1 row" 0 profile_policy "lat 1" t0]
    by blast
  from len have "length atts = 22"
    by (simp add: profile_policy_def KeyspacesRetryPolicy_init_def)
  with ex show ?thesis
    by (simp add: run_def insert_loop.simps(2) loop_body_def except_handler_def pace_def comp_def)
qed

text \<open>
  C2, as stated: any two successive write attempts start at least \<open>1 / R\<close> apart, retries
  of the same record included. The script paces with \<^verbatim>\<open>time.sleep(1)\<close>, so \<open>R = 1\<close>. A
  record that times out once is retried by the driver at once: with attempts that take a
  tenth of a second, its two attempts start a tenth of a second apart.
\<close>

theorem successive_attempts_spaced_counterexample:
  "\<not> spaced 1 (map snd (List.map_filter attempt_stamp
        (snd (run timeout_once_then_ok tenth_of_a_second 0 [()]))))"
  by code_simp

text \<open>
  C2, amended: two successive write attempts made on different records start at least one
  second apart, since the one-second sleep lies between them (attempts take no negative
  time). Retries of the same record are not paced by the script.
\<close>

theorem attempts_on_successive_records_one_second_apart:
  "\<forall>i k. 0 \<le> lat i k \<Longrightarrow>
   spaced_across 1 (List.map_filter attempt_stamp (snd (run sink lat t0 rows)))"
proof -
  assume lat: "\<forall>i k. 0 \<le> lat i k"
  have pre: "(0::nat) < 1" "1 + length rows = length rows + 1" by simp_all
  show ?thesis
    unfolding run_def
    using insert_loop_spaced [OF pre lat] by blast
qed

theorem attempts_on_successive_records_witness:
  "(\<forall>i k. 0 \<le> tenth_of_a_second i k)
   \<and> spaced_across 1 (List.map_filter attempt_stamp
        (snd (run timeout_once_then_ok tenth_of_a_second 0 [(), ()])))
   \<and> List.map_filter attempt_stamp (snd (run timeout_once_then_ok tenth_of_a_second 0 [(), ()])) =
        [(1, 0), (1, 1 / 10), (2, 6 / 5), (2, 13 / 10)]"
proof -
  have h: "\<forall>i k. 0 \<le> tenth_of_a_second i k"
    by (simp add: tenth_of_a_second_def)
  have "List.map_filter attempt_stamp (snd (run timeout_once_then_ok tenth_of_a_second 0 [(), ()])) =
        [(1, 0), (1, 1 / 10), (2, 6 / 5), (2, 13 / 10)]"
    by code_simp
  with h attempts_on_successive_records_one_second_apart
    [OF h, of timeout_once_then_ok 0 "[(), ()]"]
  show ?thesis by blast
qed


text \<open>
  C3: at the end of every run the two counters add up to the number of records read from
  the source, which is also the number of records \<^verbatim>\<open>session.execute\<close> was called
  for. Every record is counted once: the counter updates carry the indices \<open>1, ..., n\<close> in
  order, and each counter equals the number of updates made to it.
\<close>

theorem counters_account_for_every_record:
  "successful (fst (run sink lat t0 rows)) + failed (fst (run sink lat t0 rows)) = length rows
   \<and> length (filter is_first_attempt (snd (run sink lat t0 rows))) = length rows
   \<and> map ev_index (filter is_counted (snd (run sink lat t0 rows))) = [1..<Suc (length rows)]
   \<and> successful (fst (run sink lat t0 rows)) =
       length (filter (counted_as True) (snd (run sink lat t0 rows)))
   \<and> failed (fst (run sink lat t0 rows)) =
       length (filter (counted_as False) (snd (run sink lat t0 rows)))"
proof -
  have pre: "(0::nat) < 1" "1 + length rows = length rows + 1" by simp_all
  have "length (map ev_index (filter is_first_attempt (snd (run sink lat t0 rows)))) =
        length [1..<Suc (length rows)]"
    unfolding run_def by (simp only: insert_loop_first_indices [OF pre])
  then have "length (filter is_first_attempt (snd (run sink lat t0 rows))) = length rows"
    by (simp del: upt_Suc)
  moreover have "successful (fst (run sink lat t0 rows)) + failed (fst (run sink lat t0 rows)) =
      length rows"
    unfolding run_def using insert_loop_counters [OF pre, of profile_policy sink lat t0] by simp
  moreover have "map ev_index (filter is_counted (snd (run sink lat t0 rows))) =
      [1..<Suc (length rows)]"
    unfolding run_def by (rule insert_loop_counted [OF pre])
  moreover have "successful (fst (run sink lat t0 rows)) =
       length (filter (counted_as True) (snd (run sink lat t0 rows)))"
    unfolding run_def using insert_loop_successful [OF pre, of profile_policy sink lat t0] by simp
  moreover have "failed (fst (run sink lat t0 rows)) =
       length (filter (counted_as False) (snd (run sink lat t0 rows)))"
    unfolding run_def using insert_loop_failed [OF pre, of profile_policy sink lat t0] by simp
  ultimately show ?thesis by blast
qed

text \<open>
  C7: records are attempted in source order. With repeated neighbours merged, the records
  the attempts are made on are the rows of the source with their indices; all events of a
  run, the counter update that ends a record among them, come grouped by record in the
  order \<open>1, ..., n\<close>.
\<close>

theorem records_attempted_in_source_order:
  "remdups_adj (List.map_filter attempt_target (snd (run sink lat t0 rows))) =
     List.enumerate 1 rows
   \<and> remdups_adj (map ev_index (snd (run sink lat t0 rows))) = [1..<Suc (length rows)]
   \<and> map ev_index (filter is_counted (snd (run sink lat t0 rows))) = [1..<Suc (length rows)]"
proof -
  have pre: "(0::nat) < 1" "1 + length rows = length rows + 1" by simp_all
  show ?thesis
    unfolding run_def
    using insert_loop_targets [OF pre] insert_loop_indices [OF pre] insert_loop_counted [OF pre]
    by blast
qed




text \<open>
  C8, as stated: cancellation requested after 2 of 5 records leaves a report of exactly
  2 records and no attempt on records 3 to 5. The loop has no cancellation check, and
  the run covers all 5 records.
\<close>

theorem cancellation_after_two_of_five_counterexample:
  "\<not> spec_cancelled_after 2 (run always_succeeds no_latency 0 [1, 2, 3, 4, 5 :: nat])"
  by code_simp

text \<open>
  C8, amended: the run has no cancellation. Every run makes the first attempt on each of
  the records \<open>1, ..., n\<close> in order, and its counters cover all \<open>n\<close> records.
\<close>

theorem every_record_attempted_no_cancellation:
  "map ev_index (filter is_first_attempt (snd (run sink lat t0 rows))) = [1..<Suc (length rows)]
   \<and> successful (fst (run sink lat t0 rows)) + failed (fst (run sink lat t0 rows)) = length rows"
proof -
  have pre: "(0::nat) < 1" "1 + length rows = length rows + 1" by simp_all
  show ?thesis
    unfolding run_def
    using insert_loop_first_indices [OF pre] insert_loop_counters [OF pre]
    by simp
qed

text \<open>
  C10: the progress computation does not divide by zero. The rate is 0 when no time has
  elapsed (the division is made only for a positive elapsed time), the remaining time is 0
  when the rate is 0 (the division is made only for a positive rate), and no run logs a
  \<^verbatim>\<open>ZeroDivisionError\<close>.
\<close>

theorem progress_never_divides_by_zero:
  "observed_rate i elapsed = Inr (if elapsed > 0 then of_nat i / elapsed else 0)
   \<and> observed_rate i 0 = Inr 0
   \<and> eta_seconds n i r = Inr (if r > 0 then (of_nat n - of_nat i) / r else 0)
   \<and> eta_seconds n i 0 = Inr 0
   \<and> ErrorEv j ZeroDivisionError \<notin> set (snd (run sink lat t0 rows))"
proof -
  have pre: "(0::nat) < 1" "1 + length rows = length rows + 1" by simp_all
  have "ErrorEv j ZeroDivisionError \<notin> set (snd (run sink lat t0 rows))"
    unfolding run_def by (rule insert_loop_no_division_error [OF pre])
  then show ?thesis
    by (simp add: observed_rate_def eta_seconds_def py_truediv_def)
qed

text \<open>
  C5, as stated: a progress event after every 10 successful attempts. In a run of 11
  records whose first record is rejected, the script reports after record 10, when 9
  records have succeeded, and not after record 11, the tenth success.
\<close>

theorem progress_event_every_ten_successes_counterexample:
  "map ev_index (filter is_progress
       (snd (run first_record_rejected no_latency 0 [1, 2, 3, 4, 5, 6, 7, 8, 9, 10, 11 :: nat])))
   \<noteq> spec_progress_points 10 1 0 (List.map_filter counted_flag
       (snd (run first_record_rejected no_latency 0 [1, 2, 3, 4, 5, 6, 7, 8, 9, 10, 11 :: nat])))"
  by code_simp

text \<open>
  C5, amended: a progress event is emitted exactly after the successful write of a record
  whose index \<open>i\<close> in the source is a multiple of 10. It carries \<open>i\<close>, the total \<open>n\<close>,
  the percentage \<open>i / n * 100\<close>, the rate \<open>i / elapsed\<close> (0 when no time has elapsed), where
  \<open>elapsed\<close> is the time from \<open>start_time\<close> to the return of the successful attempt, and
  the remaining time in minutes, \<open>(n - i) / rate / 60\<close> (0 when the rate is 0).
\<close>

theorem progress_after_successful_record_at_multiple_of_ten:
  "map ev_index (filter is_progress (snd (run sink lat t0 rows))) =
     filter (\<lambda>j. j mod 10 = 0)
       (map ev_index (filter (counted_as True) (snd (run sink lat t0 rows))))
   \<and> (ProgressEv j p \<in> set (snd (run sink lat t0 rows)) \<longrightarrow>
        j mod 10 = 0 \<and> processed p = j \<and> total p = length rows
        \<and> percent p = of_nat j / of_nat (length rows) * 100
        \<and> (\<exists>row a. AttemptEv j row a \<in> set (snd (run sink lat t0 rows))
              \<and> outcome a = Succeeded
              \<and> rate p = (if started a + lat j (retry_num a) - t0 > 0
                          then of_nat j / (started a + lat j (retry_num a) - t0) else 0))
        \<and> eta_minutes p =
            (if rate p > 0 then (of_nat (length rows) - of_nat j) / rate p else 0) / 60)"
proof -
  have pre: "(0::nat) < 1" "1 + length rows = length rows + 1" by simp_all
  show ?thesis
    unfolding run_def
    using insert_loop_progress_indices [OF pre] insert_loop_progress_values [OF pre]
    by blast
qed

theorem progress_after_successful_record_witness:
  "ProgressEv 10 \<lparr>processed = 10, total = 10, percent = 100, rate = 10 / 9, eta_minutes = 0\<rparr>
     \<in> set (snd (run always_succeeds no_latency 0 [1, 2, 3, 4, 5, 6, 7, 8, 9, 10 :: nat]))
   \<and> (\<exists>row a. AttemptEv 10 row a
          \<in> set (snd (run always_succeeds no_latency 0 [1, 2, 3, 4, 5, 6, 7, 8, 9, 10 :: nat]))
        \<and> outcome a = Succeeded
        \<and> started a + no_latency 10 (retry_num a) - 0 = 9)"
proof -
  let ?p = "\<lparr>processed = 10, total = 10, percent = 100, rate = 10 / 9, eta_minutes = 0\<rparr>"
  let ?E = "snd (run always_succeeds no_latency 0 [1, 2, 3, 4, 5, 6, 7, 8, 9, 10 :: nat])"
  have mem: "ProgressEv 10 ?p \<in> set ?E"
    by code_simp
  from progress_after_successful_record_at_multiple_of_ten
    [of always_succeeds no_latency 0 "[1, 2, 3, 4, 5, 6, 7, 8, 9, 10 :: nat]" 10 ?p,
     THEN conjunct2, THEN mp, OF mem]
  obtain row a where a: "AttemptEv 10 row a \<in> set ?E" "outcome a = Succeeded"
    and r: "rate ?p = (if started a + no_latency 10 (retry_num a) - 0 > 0
                  then of_nat 10 / (started a + no_latency 10 (retry_num a) - 0) else 0)"
    by blast
  from r have "started a + no_latency 10 (retry_num a) - 0 = 9"
    by (auto split: if_splits simp: field_simps)
  with mem a show ?thesis by blast
qed

text \<open>
  C6: the retry decision does not depend on the cause of the transient failure. For every
  \<open>retry_num\<close> and consistency level, \<^verbatim>\<open>on_read_timeout\<close>, \<^verbatim>\<open>on_write_timeout\<close>,
  \<^verbatim>\<open>on_unavailable\<close> and \<^verbatim>\<open>on_request_error\<close> return the same pair: \<^verbatim>\<open>RETRY\<close> with the
  consistency level they were given when \<open>retry_num \<le> RETRY_MAX_ATTEMPTS\<close>, and
  \<^verbatim>\<open>RETHROW\<close> with \<^verbatim>\<open>None\<close> otherwise. The pair holds no delay.
\<close>

theorem retry_decision_same_for_every_cause:
  "on_read_timeout self q1 c rr1 rc1 dr n =
     (if n \<le> RETRY_MAX_ATTEMPTS self then (RETRY, Some c) else (RETHROW, None))
   \<and> on_write_timeout self q2 c wt rr2 rc2 n = on_read_timeout self q1 c rr1 rc1 dr n
   \<and> on_unavailable self q3 c rq al n = on_read_timeout self q1 c rr1 rc1 dr n
   \<and> on_request_error self q4 c err n = on_read_timeout self q1 c rr1 rc1 dr n"
  by (simp add: on_read_timeout_def on_write_timeout_def on_unavailable_def
      on_request_error_def)

theorem retry_decision_witness:
  "on_write_timeout profile_policy () LOCAL_QUORUM () () () 20 = (RETRY, Some LOCAL_QUORUM)
   \<and> on_request_error profile_policy () LOCAL_QUORUM () 20 = (RETRY, Some LOCAL_QUORUM)
   \<and> on_unavailable profile_policy () LOCAL_QUORUM () () 21 = (RETHROW, None)
   \<and> on_read_timeout profile_policy () LOCAL_QUORUM () () () 21 = (RETHROW, None)"
  using retry_decision_same_for_every_cause
      [where self = profile_policy and c = LOCAL_QUORUM and n = 20 and ?q1.0 = "()"
         and ?rr1.0 = "()" and ?rc1.0 = "()" and dr = "()" and ?q2.0 = "()" and wt = "()"
         and ?rr2.0 = "()" and ?rc2.0 = "()" and ?q3.0 = "()" and rq = "()" and al = "()"
         and ?q4.0 = "()" and err = "()"]
    retry_decision_same_for_every_cause
      [where self = profile_policy and c = LOCAL_QUORUM and n = 21 and ?q1.0 = "()"
         and ?rr1.0 = "()" and ?rc1.0 = "()" and dr = "()" and ?q2.0 = "()" and wt = "()"
         and ?rr2.0 = "()" and ?rc2.0 = "()" and ?q3.0 = "()" and rq = "()" and al = "()"
         and ?q4.0 = "()" and err = "()"]
  by (simp add: profile_policy_def KeyspacesRetryPolicy_init_def)

end
